theory Spec2Isabelle
  imports Complex_Main "HOL-Library.Sublist"
begin

section \<open>The top-holder pipeline of TopHoldersBubbleMap.tsx\<close>

text \<open>
  The component fetches the total supply and the paginated list of balance owners,
  turns the raw balances into a ranked top-15 list and places one bubble per holder
  on a fixed canvas. The definitions below follow
  \<^verbatim>\<open>src/explorer/components/common/TopHoldersBubbleMap.tsx\<close>.
\<close>

subsection \<open>JavaScript numbers\<close>

text \<open>
  A JavaScript number is an IEEE-754 double. The model keeps the special values
  \<^verbatim>\<open>NaN\<close>, \<^verbatim>\<open>Infinity\<close> and \<^verbatim>\<open>-Infinity\<close> apart from the finite values and
  gives a finite value its exact real value: rounding to 53 bits, overflow and
  underflow are not modelled, and \<^verbatim>\<open>-0\<close> is identified with \<^verbatim>\<open>0\<close> (the code never
  divides by a zero it computed: its divisors are the constants 1000000, 2 and 2.5, the
  array length, and a total supply it has tested to be truthy).
\<close>

datatype number = NaN | Fin real | PInf | NInf

fun js_neg :: "number \<Rightarrow> number" where
  "js_neg NaN = NaN"
| "js_neg (Fin a) = Fin (- a)"
| "js_neg PInf = NInf"
| "js_neg NInf = PInf"

text \<open>The operator \<^verbatim>\<open>+\<close> on numbers.\<close>

fun js_add :: "number \<Rightarrow> number \<Rightarrow> number" where
  "js_add NaN _ = NaN"
| "js_add _ NaN = NaN"
| "js_add (Fin a) (Fin b) = Fin (a + b)"
| "js_add (Fin _) PInf = PInf"
| "js_add (Fin _) NInf = NInf"
| "js_add PInf (Fin _) = PInf"
| "js_add PInf PInf = PInf"
| "js_add PInf NInf = NaN"
| "js_add NInf (Fin _) = NInf"
| "js_add NInf NInf = NInf"
| "js_add NInf PInf = NaN"

text \<open>The operator \<^verbatim>\<open>-\<close> on numbers.\<close>

definition js_sub :: "number \<Rightarrow> number \<Rightarrow> number" where
  "js_sub x y = js_add x (js_neg y)"

text \<open>The operator \<^verbatim>\<open>*\<close> on numbers.\<close>

fun js_mul :: "number \<Rightarrow> number \<Rightarrow> number" where
  "js_mul NaN _ = NaN"
| "js_mul _ NaN = NaN"
| "js_mul (Fin a) (Fin b) = Fin (a * b)"
| "js_mul (Fin a) PInf = (if a = 0 then NaN else if 0 < a then PInf else NInf)"
| "js_mul (Fin a) NInf = (if a = 0 then NaN else if 0 < a then NInf else PInf)"
| "js_mul PInf (Fin b) = (if b = 0 then NaN else if 0 < b then PInf else NInf)"
| "js_mul NInf (Fin b) = (if b = 0 then NaN else if 0 < b then NInf else PInf)"
| "js_mul PInf PInf = PInf"
| "js_mul PInf NInf = NInf"
| "js_mul NInf PInf = NInf"
| "js_mul NInf NInf = PInf"

text \<open>The operator \<^verbatim>\<open>/\<close> on numbers: a finite value over zero is an infinity or NaN.\<close>

fun js_div :: "number \<Rightarrow> number \<Rightarrow> number" where
  "js_div NaN _ = NaN"
| "js_div _ NaN = NaN"
| "js_div (Fin a) (Fin b) =
     (if b = 0 then (if a = 0 then NaN else if 0 < a then PInf else NInf)
      else Fin (a / b))"
| "js_div (Fin _) PInf = Fin 0"
| "js_div (Fin _) NInf = Fin 0"
| "js_div PInf (Fin b) = (if 0 \<le> b then PInf else NInf)"
| "js_div NInf (Fin b) = (if 0 \<le> b then NInf else PInf)"
| "js_div PInf PInf = NaN"
| "js_div PInf NInf = NaN"
| "js_div NInf PInf = NaN"
| "js_div NInf NInf = NaN"

text \<open>The comparisons \<^verbatim>\<open><\<close>, \<^verbatim>\<open>>\<close> and \<^verbatim>\<open><=\<close>: false whenever an operand is NaN.\<close>

fun js_lt :: "number \<Rightarrow> number \<Rightarrow> bool" where
  "js_lt NaN _ = False"
| "js_lt _ NaN = False"
| "js_lt (Fin a) (Fin b) = (a < b)"
| "js_lt (Fin _) PInf = True"
| "js_lt (Fin _) NInf = False"
| "js_lt PInf _ = False"
| "js_lt NInf (Fin _) = True"
| "js_lt NInf PInf = True"
| "js_lt NInf NInf = False"

definition js_gt :: "number \<Rightarrow> number \<Rightarrow> bool" where
  "js_gt x y = js_lt y x"

definition js_le :: "number \<Rightarrow> number \<Rightarrow> bool" where
  "js_le x y = (js_lt x y \<or> (x = y \<and> x \<noteq> NaN))"

text \<open>\<^verbatim>\<open>Math.min\<close> and \<^verbatim>\<open>Math.max\<close> of two arguments: NaN when an argument is NaN.\<close>

definition Math_min :: "number \<Rightarrow> number \<Rightarrow> number" where
  "Math_min x y = (if x = NaN \<or> y = NaN then NaN else if js_lt y x then y else x)"

definition Math_max :: "number \<Rightarrow> number \<Rightarrow> number" where
  "Math_max x y = (if x = NaN \<or> y = NaN then NaN else if js_lt x y then y else x)"

text \<open>\<^verbatim>\<open>Math.cos\<close> and \<^verbatim>\<open>Math.sin\<close>: NaN on NaN and on the infinities.\<close>

fun Math_cos :: "number \<Rightarrow> number" where
  "Math_cos (Fin a) = Fin (cos a)"
| "Math_cos _ = NaN"

fun Math_sin :: "number \<Rightarrow> number" where
  "Math_sin (Fin a) = Fin (sin a)"
| "Math_sin _ = NaN"

text \<open>A number in a condition: NaN and zero are falsy.\<close>

definition truthy :: "number \<Rightarrow> bool" where
  "truthy x = (x \<noteq> NaN \<and> x \<noteq> Fin 0)"

subsection \<open>Data\<close>

text \<open>
  One entry of \<^verbatim>\<open>denom_owners\<close> as the code reads it: \<^verbatim>\<open>holder.address\<close> and
  \<^verbatim>\<open>holder.balance.amount\<close>, both strings, which is the shape the endpoint
  documents. An entry without a \<^verbatim>\<open>balance\<close> object is outside the model.
\<close>

record denom_owner =
  owner_address :: string
  balance_amount :: string

text \<open>The interface \<^verbatim>\<open>Holder\<close> (lines 4-10).\<close>

record Holder =
  address :: string
  fullAddress :: string
  balance :: number
  percentage :: number
  rank :: nat

subsection \<open>truncateAddress (lines 163-166)\<close>

text \<open>
  A string is the list of its characters; addresses are ASCII, one character per
  code unit. \<^verbatim>\<open>s.slice(-n)\<close> is the last \<open>n\<close> characters, the whole string when
  it is shorter.
\<close>

definition slice_last :: "nat \<Rightarrow> string \<Rightarrow> string" where
  "slice_last n s = drop (length s - n) s"

definition truncateAddress :: "string \<Rightarrow> string" where
  "truncateAddress a =
     (if length a \<le> 20 then a
      else take 11 a @ ''...'' @ slice_last 4 a)"

subsection \<open>Processing the holders (lines 130-146)\<close>

text \<open>
  \<^verbatim>\<open>Array.prototype.sort\<close> with a comparison function. The sort is stable (ECMAScript
  2019), and a NaN returned by the comparison function counts as \<open>+0\<close>: an element
  moves behind another one only when the comparison is positive. The model inserts
  each element, from the right, before the first element it does not have to follow;
  every stable sort returns the same list when the comparison function is consistent.
\<close>

fun sort_insert :: "('a \<Rightarrow> 'a \<Rightarrow> number) \<Rightarrow> 'a \<Rightarrow> 'a list \<Rightarrow> 'a list" where
  "sort_insert cmp x [] = [x]"
| "sort_insert cmp x (y # ys) =
     (if js_gt (cmp x y) (Fin 0) then y # sort_insert cmp x ys else x # y # ys)"

fun array_sort :: "('a \<Rightarrow> 'a \<Rightarrow> number) \<Rightarrow> 'a list \<Rightarrow> 'a list" where
  "array_sort cmp [] = []"
| "array_sort cmp (x # xs) = sort_insert cmp x (array_sort cmp xs)"

text \<open>
  The first \<^verbatim>\<open>map\<close>: an entry becomes the pair of its address and its balance in AKT.
  \<^verbatim>\<open>parseFloat\<close> is the language's own function and a parameter \<open>pf\<close> of the model:
  the theorems hold for every function from strings to numbers.
\<close>

definition to_balance :: "(string \<Rightarrow> number) \<Rightarrow> denom_owner \<Rightarrow> string \<times> number" where
  "to_balance pf holder =
     (owner_address holder, js_div (pf (balance_amount holder)) (Fin 1000000))"

text \<open>The comparison function \<^verbatim>\<open>(a, b) => b.balance - a.balance\<close>.\<close>

definition by_balance_desc :: "string \<times> number \<Rightarrow> string \<times> number \<Rightarrow> number" where
  "by_balance_desc a b = js_sub (snd b) (snd a)"

text \<open>The chain up to \<^verbatim>\<open>slice(0, 15)\<close>.\<close>

definition top15 :: "(string \<Rightarrow> number) \<Rightarrow> denom_owner list \<Rightarrow> (string \<times> number) list" where
  "top15 pf allHolders =
     take 15 (array_sort by_balance_desc
       (filter (\<lambda>holder. js_gt (snd holder) (Fin 0)) (map (to_balance pf) allHolders)))"

text \<open>
  The last \<^verbatim>\<open>map\<close>, with the index. \<open>totalSupplyValue\<close> is a number or null; null, NaN
  and zero are falsy.
\<close>

definition to_holder :: "number option \<Rightarrow> nat \<times> (string \<times> number) \<Rightarrow> Holder" where
  "to_holder totalSupplyValue p =
     (case p of (index, holder) \<Rightarrow>
       \<lparr> address = truncateAddress (fst holder),
         fullAddress = fst holder,
         balance = snd holder,
         percentage =
           (case totalSupplyValue of
              Some t \<Rightarrow> if truthy t then js_mul (js_div (snd holder) t) (Fin 100) else Fin 0
            | None \<Rightarrow> Fin 0),
         rank = index + 1 \<rparr>)"

definition processedHolders ::
  "(string \<Rightarrow> number) \<Rightarrow> number option \<Rightarrow> denom_owner list \<Rightarrow> Holder list" where
  "processedHolders pf totalSupplyValue allHolders =
     map (to_holder totalSupplyValue) (enumerate 0 (top15 pf allHolders))"

subsection \<open>Errors and the network\<close>

text \<open>A thrown JavaScript error: its \<^verbatim>\<open>name\<close> and its \<^verbatim>\<open>message\<close>.\<close>

datatype js_error = JsError (err_name: string) (err_message: string)

text \<open>
  A \<^verbatim>\<open>Response\<close>: the flag \<^verbatim>\<open>ok\<close>, and what \<^verbatim>\<open>response.json()\<close> settles to, the
  parsed body or the error it rejects with when the body is not JSON. The parsed body
  is typed, one type per endpoint, with the fields the code reads.
\<close>

datatype 'b response = Response (ok: bool) (json: "js_error + 'b")

text \<open>
  What the transport does with one request, left alone: it answers after some
  milliseconds, fails after some milliseconds, or never settles.
\<close>

datatype 'b transport = Responds nat "'b response" | Fails nat js_error | Hangs

text \<open>
  \<^verbatim>\<open>fetch(url, { signal })\<close> with \<^verbatim>\<open>controller.abort()\<close> scheduled after \<open>timeout\<close>
  milliseconds (lines 47-50): a request that has not settled before the timer fires is
  aborted and rejects with an error named \<^verbatim>\<open>AbortError\<close>. A request that settles in
  the very millisecond of the timer is taken to be aborted.
\<close>

definition fetch_with_signal :: "'b transport \<Rightarrow> nat \<Rightarrow> js_error + 'b response" where
  "fetch_with_signal url timeout =
     (case url of
        Responds t r \<Rightarrow>
          if t < timeout then Inr r else Inl (JsError ''AbortError'' ''The operation was aborted.'')
      | Fails t err \<Rightarrow>
          if t < timeout then Inl err else Inl (JsError ''AbortError'' ''The operation was aborted.'')
      | Hangs \<Rightarrow> Inl (JsError ''AbortError'' ''The operation was aborted.''))"

text \<open>\<^verbatim>\<open>fetchWithTimeout\<close> (lines 46-62).\<close>

definition fetchWithTimeout :: "'b transport \<Rightarrow> nat \<Rightarrow> js_error + 'b response" where
  "fetchWithTimeout url timeout =
     (case fetch_with_signal url timeout of
        Inr response \<Rightarrow> Inr response
      | Inl err \<Rightarrow>
          if err_name err = ''AbortError'' then Inl (JsError ''Error'' ''Request timeout'')
          else Inl err)"

text \<open>
  The body of the supply endpoint as the code reads it: the value of
  \<^verbatim>\<open>supplyData?.amount?.amount\<close>, a string, or \<open>None\<close> when a part of the path is
  missing.
\<close>

type_synonym supply_data = "string option"

text \<open>
  The body of the owners endpoint: \<^verbatim>\<open>holdersData?.denom_owners\<close> (\<open>None\<close> when
  missing) and \<^verbatim>\<open>holdersData.pagination?.next_key\<close> (\<open>None\<close> when null or missing).
\<close>

record holders_data =
  denom_owners :: "denom_owner list option"
  next_key :: "string option"

subsection \<open>The state of the component (lines 18-23)\<close>

datatype data_source = Loading | Live | Error

record session =
  holders :: "Holder list"
  isLoading :: bool
  error :: "string option"
  dataSource :: data_source
  totalSupply :: "number option"
  lastUpdated :: "nat option"

subsection \<open>The pagination loop (lines 87-121)\<close>

definition limit :: nat where
  "limit = 100"

definition maxHolders :: nat where
  "maxHolders = 500"

text \<open>The variables of the loop.\<close>

record loop_vars =
  offset :: nat
  hasMore :: bool
  allHolders :: "denom_owner list"

text \<open>
  One run of the loop's body (lines 94-120) ends at the closing brace, with the
  variables updated, or leaves the loop by \<^verbatim>\<open>break\<close> or by an error thrown through
  the \<^verbatim>\<open>await\<close>. The network is a function from the offset of the request to what the
  transport does with it; the limit is the same in every request. The delay of 100 ms
  between two pages changes no variable.
\<close>

datatype iteration = Next loop_vars | Break | Throw js_error

definition loop_body :: "(nat \<Rightarrow> holders_data transport) \<Rightarrow> loop_vars \<Rightarrow> iteration" where
  "loop_body owners_url v =
     (case fetchWithTimeout (owners_url (offset v)) 8000 of
        Inl err \<Rightarrow> Throw err
      | Inr holdersResponse \<Rightarrow>
          if \<not> ok holdersResponse then Break
          else
            (case json holdersResponse of
               Inl err \<Rightarrow> Throw err
             | Inr holdersData \<Rightarrow>
                 (case denom_owners holdersData of
                    None \<Rightarrow> Break
                  | Some owners \<Rightarrow>
                      if length owners > 0 then
                        Next \<lparr> offset = offset v + limit,
                               hasMore =
                                 (case next_key holdersData of
                                    None \<Rightarrow> False
                                  | Some k \<Rightarrow> k \<noteq> ''''),
                               allHolders = allHolders v @ owners \<rparr>
                      else Break)))"

lemma loop_body_Next_grows:
  "loop_body owners_url v = Next v' \<Longrightarrow> length (allHolders v) < length (allHolders v')"
  by (auto simp: loop_body_def split: sum.splits if_splits option.splits)

text \<open>
  The loop: the guard, then the body. It returns the accumulated entries when the
  guard fails or the body breaks, and the error when the body throws.
\<close>

function holders_loop ::
  "(nat \<Rightarrow> holders_data transport) \<Rightarrow> loop_vars \<Rightarrow> js_error + denom_owner list" where
  "holders_loop owners_url v =
     (if hasMore v \<and> length (allHolders v) < maxHolders then
        (case loop_body owners_url v of
           Next v' \<Rightarrow> holders_loop owners_url v'
         | Break \<Rightarrow> Inr (allHolders v)
         | Throw err \<Rightarrow> Inl err)
      else Inr (allHolders v))"
  by pat_completeness auto
termination
  by (relation "measure (\<lambda>(owners_url, v). maxHolders - length (allHolders v))")
     (auto dest: loop_body_Next_grows)

declare holders_loop.simps [simp del]

subsection \<open>fetchTopHolders (lines 64-161)\<close>

text \<open>The \<^verbatim>\<open>catch\<close> block (lines 155-160).\<close>

definition on_error :: "js_error \<Rightarrow> session \<Rightarrow> session" where
  "on_error err s =
     s\<lparr> error :=
          Some (if err_message err \<noteq> '''' then err_message err
                else ''Failed to fetch holder data''),
        dataSource := Error,
        isLoading := False \<rparr>"

text \<open>
  \<^verbatim>\<open>totalSupplyValue\<close> (lines 79-81): the amount is a string, falsy when empty.
\<close>

definition totalSupplyValue_of :: "(string \<Rightarrow> number) \<Rightarrow> supply_data \<Rightarrow> number option" where
  "totalSupplyValue_of pf supplyData =
     (case supplyData of
        Some amount \<Rightarrow>
          if amount \<noteq> '''' then Some (js_div (pf amount) (Fin 1000000)) else None
      | None \<Rightarrow> None)"

text \<open>The variables of the loop when it starts (lines 87-90).\<close>

definition loop_start :: loop_vars where
  "loop_start = \<lparr> offset = 0, hasMore = True, allHolders = [] \<rparr>"

text \<open>
  The whole cycle, from the state of the component before it to the state after it.
  \<open>now\<close> is what \<^verbatim>\<open>Date.now()\<close> returns.
\<close>

definition fetchTopHolders ::
  "(string \<Rightarrow> number) \<Rightarrow> supply_data transport \<Rightarrow> (nat \<Rightarrow> holders_data transport) \<Rightarrow>
   nat \<Rightarrow> session \<Rightarrow> session" where
  "fetchTopHolders pf supply_url owners_url now s0 =
     (let s1 = s0\<lparr> isLoading := True, error := None \<rparr> in
      case fetchWithTimeout supply_url 8000 of
        Inl err \<Rightarrow> on_error err s1
      | Inr supplyResponse \<Rightarrow>
          if \<not> ok supplyResponse then
            on_error (JsError ''Error'' ''Failed to fetch total supply'') s1
          else
            (case json supplyResponse of
               Inl err \<Rightarrow> on_error err s1
             | Inr supplyData \<Rightarrow>
                 let totalSupplyValue = totalSupplyValue_of pf supplyData;
                     s2 = s1\<lparr> totalSupply := totalSupplyValue \<rparr>
                 in
                   (case holders_loop owners_url loop_start of
                      Inl err \<Rightarrow> on_error err s2
                    | Inr found \<Rightarrow>
                        if length found = 0 then
                          on_error (JsError ''Error'' ''No holder data received'') s2
                        else
                          s2\<lparr> holders := processedHolders pf totalSupplyValue found,
                              lastUpdated := Some now,
                              dataSource := Live,
                              isLoading := False \<rparr>)))"

subsection \<open>The layout (lines 229-243 and 479-481)\<close>

record BubblePosition =
  left_pos :: number
  top_pos :: number

definition calculateBubblePosition :: "number \<Rightarrow> number \<Rightarrow> BubblePosition" where
  "calculateBubblePosition index total_count =
     (let containerWidth = Fin 800;
          containerHeight = Fin 600;
          padding = Fin 100;
          angle = js_mul index (Fin 2.4);
          radius =
            js_div (js_mul (js_div index total_count) (Math_min containerWidth containerHeight))
              (Fin 2.5);
          x = js_add (js_div containerWidth (Fin 2)) (js_mul radius (Math_cos angle));
          y = js_add (js_div containerHeight (Fin 2)) (js_mul radius (Math_sin angle))
      in \<lparr> left_pos = Math_max padding (Math_min x (js_sub containerWidth padding)),
           top_pos = Math_max padding (Math_min y (js_sub containerHeight padding)) \<rparr>)"

text \<open>
  The positions the component renders: \<^verbatim>\<open>holders.map((holder, index) => ...)\<close> calls
  \<^verbatim>\<open>calculateBubblePosition(index, holders.length)\<close> for each holder.
\<close>

definition layout :: "Holder list \<Rightarrow> BubblePosition list" where
  "layout hs =
     map (\<lambda>(index, holder). calculateBubblePosition (Fin (real index)) (Fin (real (length hs))))
       (enumerate 0 hs)"

subsection \<open>Notions the properties are stated with\<close>

text \<open>
  The values the variables of the loop take when the guard is tested: the start, and
  the variables after every run of the body that reaches the closing brace.
\<close>

inductive loop_reaches :: "(nat \<Rightarrow> holders_data transport) \<Rightarrow> loop_vars \<Rightarrow> loop_vars \<Rightarrow> bool"
  for owners_url :: "nat \<Rightarrow> holders_data transport" where
  start: "loop_reaches owners_url v v"
| step: "loop_reaches owners_url v w \<Longrightarrow> hasMore w \<Longrightarrow> length (allHolders w) < maxHolders \<Longrightarrow>
         loop_body owners_url w = Next w' \<Longrightarrow> loop_reaches owners_url v w'"

text \<open>The supply request is answered in time, with a success status and a body that parses.\<close>

definition supply_received :: "supply_data transport \<Rightarrow> supply_data \<Rightarrow> bool" where
  "supply_received supply_url supplyData =
     (case fetchWithTimeout supply_url 8000 of
        Inr supplyResponse \<Rightarrow> ok supplyResponse \<and> json supplyResponse = Inr supplyData
      | Inl err \<Rightarrow> False)"

text \<open>The state in which the cycle asks for the holders.\<close>

definition supply_stored :: "(string \<Rightarrow> number) \<Rightarrow> supply_data \<Rightarrow> session \<Rightarrow> session" where
  "supply_stored pf supplyData s0 =
     s0\<lparr> isLoading := True, error := None, totalSupply := totalSupplyValue_of pf supplyData \<rparr>"

text \<open>The transport settles a request, one way or the other, within the bound.\<close>

fun settles_within :: "'b transport \<Rightarrow> nat \<Rightarrow> bool" where
  "settles_within (Responds t r) bound = (t \<le> bound)"
| "settles_within (Fails t err) bound = (t \<le> bound)"
| "settles_within Hangs bound = False"

text \<open>The entries of the page the transport would deliver at an offset, if it delivers one.\<close>

definition page_entries :: "holders_data transport \<Rightarrow> denom_owner list" where
  "page_entries url =
     (case url of
        Responds t r \<Rightarrow>
          (case json r of
             Inr holdersData \<Rightarrow> (case denom_owners holdersData of Some owners \<Rightarrow> owners | None \<Rightarrow> [])
           | Inl err \<Rightarrow> [])
      | Fails t err \<Rightarrow> []
      | Hangs \<Rightarrow> [])"

definition pages_at_most :: "(nat \<Rightarrow> holders_data transport) \<Rightarrow> nat \<Rightarrow> bool" where
  "pages_at_most owners_url bound = (\<forall>off. length (page_entries (owners_url off)) \<le> bound)"

text \<open>
  The page at an offset carries a continuation token; and: every page that carries
  one is full (or empty), so that a short page can only be the last one.
\<close>

definition page_has_token :: "holders_data transport \<Rightarrow> bool" where
  "page_has_token url =
     (case url of
        Responds t r \<Rightarrow>
          (case json r of
             Inr holdersData \<Rightarrow>
               (case next_key holdersData of Some k \<Rightarrow> k \<noteq> '''' | None \<Rightarrow> False)
           | Inl err \<Rightarrow> False)
      | Fails t err \<Rightarrow> False
      | Hangs \<Rightarrow> False)"

definition token_pages_full :: "(nat \<Rightarrow> holders_data transport) \<Rightarrow> bool" where
  "token_pages_full owners_url =
     (\<forall>off. page_has_token (owners_url off) \<longrightarrow>
        page_entries (owners_url off) = [] \<or> length (page_entries (owners_url off)) = limit)"

text \<open>A position whose coordinates lie between the padding and the canvas less the padding.\<close>

definition within_canvas :: "BubblePosition \<Rightarrow> bool" where
  "within_canvas p =
     (js_le (Fin 100) (left_pos p) \<and> js_le (left_pos p) (Fin 700) \<and>
      js_le (Fin 100) (top_pos p) \<and> js_le (top_pos p) (Fin 500))"

text \<open>The order of the sorted pairs: the earlier balance is at least the later one.\<close>

definition descending :: "string \<times> number \<Rightarrow> string \<times> number \<Rightarrow> bool" where
  "descending a b = js_le (snd b) (snd a)"

subsection \<open>Concrete inputs\<close>

text \<open>
  For the concrete runs \<open>pf\<close> is the following function: the value of a string of
  decimal digits, which is what \<^verbatim>\<open>parseFloat\<close> returns for it, and NaN for every other
  string (where \<^verbatim>\<open>parseFloat\<close> also reads signs, fractions, exponents and a numeric
  prefix). The concrete amounts are strings of digits.
\<close>

definition digit_of :: "char \<Rightarrow> nat option" where
  "digit_of c =
     (let code = (of_char c :: nat)
      in if 48 \<le> code \<and> code \<le> 57 then Some (code - 48) else None)"

fun digits_value :: "string \<Rightarrow> nat \<Rightarrow> nat option" where
  "digits_value [] acc = Some acc"
| "digits_value (c # cs) acc =
     (case digit_of c of None \<Rightarrow> None | Some d \<Rightarrow> digits_value cs (10 * acc + d))"

definition parse_digits :: "string \<Rightarrow> number" where
  "parse_digits s =
     (if s = [] then NaN
      else (case digits_value s 0 of None \<Rightarrow> NaN | Some n \<Rightarrow> Fin (real n)))"

text \<open>The state of the component when it mounts (lines 18-23).\<close>

definition session0 :: session where
  "session0 =
     \<lparr> holders = [], isLoading = True, error = None, dataSource = Loading,
       totalSupply = None, lastUpdated = None \<rparr>"

definition owner_a1 :: denom_owner where
  "owner_a1 = \<lparr> owner_address = ''a1'', balance_amount = ''5000000'' \<rparr>"

definition owner_a2 :: denom_owner where
  "owner_a2 = \<lparr> owner_address = ''a2'', balance_amount = ''15000000'' \<rparr>"

definition owner_a3 :: denom_owner where
  "owner_a3 = \<lparr> owner_address = ''a3'', balance_amount = ''5000000'' \<rparr>"

text \<open>A supply of 20 AKT, and a supply of zero.\<close>

definition supply_20 :: "supply_data transport" where
  "supply_20 = Responds 120 (Response True (Inr (Some ''20000000'')))"

definition supply_zero :: "supply_data transport" where
  "supply_zero = Responds 120 (Response True (Inr (Some ''0'')))"

text \<open>
  A supply endpoint that answers with status 500, one whose body has no amount, and
  one whose body is not JSON.
\<close>

definition supply_500 :: "supply_data transport" where
  "supply_500 = Responds 120 (Response False (Inr None))"

definition supply_no_amount :: "supply_data transport" where
  "supply_no_amount = Responds 120 (Response True (Inr None))"

definition supply_not_json :: "supply_data transport" where
  "supply_not_json =
     Responds 120 (Response True (Inl (JsError ''SyntaxError'' ''Unexpected token <'')))"

text \<open>The first page of the concrete runs: two owners and a continuation token.\<close>

definition first_page :: "holders_data transport" where
  "first_page =
     Responds 200
       (Response True
         (Inr \<lparr> denom_owners = Some [owner_a1, owner_a2], next_key = Some ''AQ=='' \<rparr>))"

text \<open>After the first page: a request that never settles.\<close>

definition second_page_hangs :: "nat \<Rightarrow> holders_data transport" where
  "second_page_hangs off = (if off = 0 then first_page else Hangs)"

text \<open>After the first page: status 503.\<close>

definition second_page_503 :: "nat \<Rightarrow> holders_data transport" where
  "second_page_503 off =
     (if off = 0 then first_page
      else Responds 200 (Response False (Inl (JsError ''SyntaxError'' ''Unexpected token <''))))"

text \<open>After the first page: an empty list, with a continuation token.\<close>

definition second_page_empty :: "nat \<Rightarrow> holders_data transport" where
  "second_page_empty off =
     (if off = 0 then first_page
      else Responds 200
             (Response True (Inr \<lparr> denom_owners = Some [], next_key = Some ''AQ=='' \<rparr>)))"

text \<open>No page request ever settles.\<close>

definition no_page_settles :: "nat \<Rightarrow> holders_data transport" where
  "no_page_settles off = Hangs"

text \<open>
  Pages within the limit that do not add up to 500: 99 owners at offset 0, 100 owners
  at every other offset, each page with a continuation token.
\<close>

definition short_first_page :: "nat \<Rightarrow> holders_data transport" where
  "short_first_page off =
     Responds 200
       (Response True
         (Inr \<lparr> denom_owners = Some (replicate (if off = 0 then 99 else 100) owner_a1),
                next_key = Some ''AQ=='' \<rparr>))"

text \<open>
  An endpoint that serves a list of \<open>holder_count\<close> owners in pages of 100: every
  page but the last is full and carries a token, the last one has the rest.
\<close>

definition server_of :: "nat \<Rightarrow> nat \<Rightarrow> holders_data transport" where
  "server_of holder_count off =
     Responds 200
       (Response True
         (Inr \<lparr> denom_owners = Some (replicate (min limit (holder_count - off)) owner_a1),
                next_key = (if off + limit < holder_count then Some ''AQ=='' else None) \<rparr>))"

text \<open>Three owners on one page, the last one: two of them with the same balance.\<close>

definition tie_page :: "nat \<Rightarrow> holders_data transport" where
  "tie_page off =
     Responds 200
       (Response True
         (Inr \<lparr> denom_owners = Some [owner_a1, owner_a2, owner_a3], next_key = None \<rparr>))"

subsection \<open>Running the loop\<close>

lemma holders_loop_exit:
  "\<not> (hasMore v \<and> length (allHolders v) < maxHolders) \<Longrightarrow>
   holders_loop owners_url v = Inr (allHolders v)"
  by (subst holders_loop.simps) auto

lemma holders_loop_run:
  "hasMore v \<Longrightarrow> length (allHolders v) < maxHolders \<Longrightarrow>
   holders_loop owners_url v =
     (case loop_body owners_url v of
        Next v' \<Rightarrow> holders_loop owners_url v'
      | Break \<Rightarrow> Inr (allHolders v)
      | Throw err \<Rightarrow> Inl err)"
  by (subst holders_loop.simps) simp

lemma loop_reaches_result:
  "loop_reaches owners_url v w \<Longrightarrow> holders_loop owners_url v = holders_loop owners_url w"
  by (induction rule: loop_reaches.induct) (simp_all add: holders_loop_run)

lemma result_reached:
  "holders_loop owners_url v = Inr found \<Longrightarrow>
   \<exists>w. loop_reaches owners_url v w \<and> allHolders w = found"
proof (induction owners_url v rule: holders_loop.induct)
  case (1 owners_url v)
  show ?case
  proof (cases "hasMore v \<and> length (allHolders v) < maxHolders")
    case False
    with "1.prems" have "allHolders v = found"
      by (simp add: holders_loop_exit)
    then show ?thesis
      using loop_reaches.start by blast
  next
    case True
    show ?thesis
    proof (cases "loop_body owners_url v")
      case (Next v')
      with True "1.prems" have "holders_loop owners_url v' = Inr found"
        by (simp add: holders_loop_run)
      with "1.IH" [OF True Next] obtain w
        where w: "loop_reaches owners_url v' w" "allHolders w = found"
        by blast
      have first: "loop_reaches owners_url v v'"
        using loop_reaches.step [OF loop_reaches.start] True Next by blast
      have "loop_reaches owners_url v w"
        using w(1) first
        by (induction rule: loop_reaches.induct) (auto intro: loop_reaches.step)
      with w(2) show ?thesis by blast
    next
      case Break
      with True "1.prems" have "allHolders v = found"
        by (simp add: holders_loop_run)
      then show ?thesis
        using loop_reaches.start by blast
    next
      case (Throw err)
      with True "1.prems" show ?thesis
        by (simp add: holders_loop_run)
    qed
  qed
qed

subsection \<open>The cycle once the supply is known\<close>

lemma supply_received_cases:
  assumes "supply_received supply_url supplyData"
  obtains supplyResponse where "fetchWithTimeout supply_url 8000 = Inr supplyResponse"
    and "ok supplyResponse" and "json supplyResponse = Inr supplyData"
  using assms by (auto simp: supply_received_def split: sum.splits)

lemma cycle_live:
  assumes "supply_received supply_url supplyData"
    and "holders_loop owners_url loop_start = Inr found" and "found \<noteq> []"
  shows "fetchTopHolders pf supply_url owners_url now s0 =
     (supply_stored pf supplyData s0)
       \<lparr> holders := processedHolders pf (totalSupplyValue_of pf supplyData) found,
         lastUpdated := Some now, dataSource := Live, isLoading := False \<rparr>"
proof -
  from assms(1) obtain supplyResponse
    where "fetchWithTimeout supply_url 8000 = Inr supplyResponse"
      and "ok supplyResponse" and "json supplyResponse = Inr supplyData"
    by (rule supply_received_cases)
  with assms(2,3) show ?thesis
    by (simp add: fetchTopHolders_def supply_stored_def Let_def)
qed

lemma cycle_no_data:
  assumes "supply_received supply_url supplyData"
    and "holders_loop owners_url loop_start = Inr []"
  shows "fetchTopHolders pf supply_url owners_url now s0 =
     on_error (JsError ''Error'' ''No holder data received'') (supply_stored pf supplyData s0)"
proof -
  from assms(1) obtain supplyResponse
    where "fetchWithTimeout supply_url 8000 = Inr supplyResponse"
      and "ok supplyResponse" and "json supplyResponse = Inr supplyData"
    by (rule supply_received_cases)
  with assms(2) show ?thesis
    by (simp add: fetchTopHolders_def supply_stored_def Let_def)
qed

lemma cycle_thrown:
  assumes "supply_received supply_url supplyData"
    and "holders_loop owners_url loop_start = Inl err"
  shows "fetchTopHolders pf supply_url owners_url now s0 =
     on_error err (supply_stored pf supplyData s0)"
proof -
  from assms(1) obtain supplyResponse
    where "fetchWithTimeout supply_url 8000 = Inr supplyResponse"
      and "ok supplyResponse" and "json supplyResponse = Inr supplyData"
    by (rule supply_received_cases)
  with assms(2) show ?thesis
    by (simp add: fetchTopHolders_def supply_stored_def Let_def)
qed

section \<open>The displayed address\<close>

lemma length_truncateAddress: "20 < length a \<Longrightarrow> length (truncateAddress a) = 18"
  by (simp add: truncateAddress_def slice_last_def)

text \<open>
  C9. \<open>truncateAddress\<close> returns an address of at most 20 characters unchanged; a longer
  one becomes its first 11 characters, three dots and its last 4 characters, which
  is at most 20 characters long; and truncating twice is truncating once.
\<close>

theorem truncateAddress_idempotent:
  "(length a \<le> 20 \<longrightarrow> truncateAddress a = a) \<and>
   (20 < length a \<longrightarrow>
      truncateAddress a = take 11 a @ ''...'' @ drop (length a - 4) a \<and>
      length (truncateAddress a) \<le> 20) \<and>
   truncateAddress (truncateAddress a) = truncateAddress a"
proof (cases "length a \<le> 20")
  case True
  then show ?thesis by (simp add: truncateAddress_def)
next
  case False
  then have long: "20 < length a" by simp
  have len: "length (truncateAddress a) = 18"
    using long by (rule length_truncateAddress)
  have shape: "truncateAddress a = take 11 a @ ''...'' @ drop (length a - 4) a"
    using long by (simp add: truncateAddress_def slice_last_def)
  have idem: "truncateAddress (truncateAddress a) = truncateAddress a"
    using len by (simp add: truncateAddress_def [of "truncateAddress a"])
  show ?thesis using long len shape idem by simp
qed

theorem truncateAddress_idempotent_witness:
  "length ''akash1short'' \<le> 20 \<and> truncateAddress ''akash1short'' = ''akash1short'' \<and>
   20 < length ''akash1abcdefghijklmnopqrstuvwxyz0123456789ab'' \<and>
   truncateAddress ''akash1abcdefghijklmnopqrstuvwxyz0123456789ab'' = ''akash1abcde...89ab'' \<and>
   length (truncateAddress ''akash1abcdefghijklmnopqrstuvwxyz0123456789ab'') \<le> 20 \<and>
   truncateAddress (truncateAddress ''akash1abcdefghijklmnopqrstuvwxyz0123456789ab'') =
     truncateAddress ''akash1abcdefghijklmnopqrstuvwxyz0123456789ab''"
  using truncateAddress_idempotent [of "''akash1short''"]
    truncateAddress_idempotent [of "''akash1abcdefghijklmnopqrstuvwxyz0123456789ab''"]
  by (simp add: truncateAddress_def slice_last_def)

section \<open>The processed holders\<close>

lemma js_gt_zero_cases:
  "js_gt x (Fin 0) \<Longrightarrow> (\<exists>r. x = Fin r \<and> 0 < r) \<or> x = PInf"
  by (cases x) (simp_all add: js_gt_def)

lemma js_sub_self_not_positive: "\<not> js_gt (js_sub k k) (Fin 0)"
  by (cases k) (simp_all add: js_gt_def js_sub_def)

lemma by_balance_desc_positive:
  assumes "js_gt (snd a) (Fin 0)" and "js_gt (snd b) (Fin 0)"
  shows "js_gt (by_balance_desc a b) (Fin 0) = js_lt (snd a) (snd b)"
  using js_gt_zero_cases [OF assms(1)] js_gt_zero_cases [OF assms(2)]
  by (auto simp: by_balance_desc_def js_sub_def js_gt_def)

lemma js_le_total:
  assumes "js_gt x (Fin 0)" and "js_gt y (Fin 0)" and "\<not> js_lt x y"
  shows "js_le y x"
  using js_gt_zero_cases [OF assms(1)] js_gt_zero_cases [OF assms(2)] assms(3)
  by (auto simp: js_le_def)

lemma js_lt_le: "js_lt x y \<Longrightarrow> js_le x y"
  by (simp add: js_le_def)

lemma js_le_trans: "js_le x y \<Longrightarrow> js_le y z \<Longrightarrow> js_le x z"
  by (cases x; cases y; cases z) (auto simp: js_le_def)

lemma set_sort_insert: "set (sort_insert cmp x ys) = insert x (set ys)"
  by (induction ys) auto

lemma set_array_sort: "set (array_sort cmp xs) = set xs"
  by (induction xs) (simp_all add: set_sort_insert)

lemma length_sort_insert: "length (sort_insert cmp x ys) = Suc (length ys)"
  by (induction ys) auto

lemma length_array_sort: "length (array_sort cmp xs) = length xs"
  by (induction xs) (simp_all add: length_sort_insert)

lemma sorted_sort_insert:
  assumes "js_gt (snd x) (Fin 0)" and "\<forall>y\<in>set ys. js_gt (snd y) (Fin 0)"
    and "sorted_wrt descending ys"
  shows "sorted_wrt descending (sort_insert by_balance_desc x ys)"
  using assms(2,3)
proof (induction ys)
  case Nil
  show ?case by simp
next
  case (Cons y ys)
  have py: "js_gt (snd y) (Fin 0)" using Cons.prems(1) by simp
  show ?case
  proof (cases "js_lt (snd x) (snd y)")
    case True
    then have "descending y x"
      by (simp add: descending_def js_lt_le)
    moreover have "sorted_wrt descending (sort_insert by_balance_desc x ys)"
      using Cons by simp
    ultimately show ?thesis
      using True Cons.prems by_balance_desc_positive [OF assms(1) py]
      by (auto simp: set_sort_insert)
  next
    case False
    then have xy: "descending x y"
      using js_le_total [OF assms(1) py] by (simp add: descending_def)
    have "descending x z" if "z \<in> set ys" for z
    proof -
      from that Cons.prems(2) have "descending y z" by simp
      with xy show ?thesis
        unfolding descending_def by (blast intro: js_le_trans)
    qed
    with xy False Cons.prems(2) show ?thesis
      using by_balance_desc_positive [OF assms(1) py] by auto
  qed
qed

lemma sorted_array_sort:
  "\<forall>y\<in>set xs. js_gt (snd y) (Fin 0) \<Longrightarrow> sorted_wrt descending (array_sort by_balance_desc xs)"
  by (induction xs) (simp_all add: sorted_sort_insert set_array_sort)

lemma filter_sort_insert:
  "filter (\<lambda>p. snd p = k) (sort_insert by_balance_desc x ys) = filter (\<lambda>p. snd p = k) (x # ys)"
proof (induction ys)
  case Nil
  show ?case by simp
next
  case (Cons y ys)
  show ?case
  proof (cases "js_gt (by_balance_desc x y) (Fin 0)")
    case False
    then show ?thesis by simp
  next
    case True
    have "\<not> (snd x = k \<and> snd y = k)"
      using True js_sub_self_not_positive [of k] by (auto simp: by_balance_desc_def)
    with True Cons.IH show ?thesis by auto
  qed
qed

lemma filter_array_sort:
  "filter (\<lambda>p. snd p = k) (array_sort by_balance_desc xs) = filter (\<lambda>p. snd p = k) xs"
  by (induction xs) (simp_all add: filter_sort_insert)

lemma holders_as_pairs:
  "map (\<lambda>h. (fullAddress h, balance h)) (map (to_holder t) (enumerate n xs)) = xs"
  by (induction xs arbitrary: n) (simp_all add: to_holder_def)

lemma processedHolders_pairs:
  "map (\<lambda>h. (fullAddress h, balance h)) (processedHolders pf t found) = top15 pf found"
  unfolding processedHolders_def by (rule holders_as_pairs)

lemma sorted_top15: "sorted_wrt descending (top15 pf found)"
  unfolding top15_def
  by (rule sorted_wrt_take) (simp add: sorted_array_sort)

lemma top15_stable:
  "prefix (filter (\<lambda>p. snd p = k) (top15 pf found))
     (filter (\<lambda>p. snd p = k) (map (to_balance pf) found))"
proof -
  let ?eq = "\<lambda>p::string \<times> number. snd p = k"
  let ?positive = "filter (\<lambda>holder. js_gt (snd holder) (Fin 0)) (map (to_balance pf) found)"
  have "prefix (filter ?eq (top15 pf found)) (filter ?eq (array_sort by_balance_desc ?positive))"
    unfolding top15_def by (rule filter_mono_prefix) (rule take_is_prefix)
  also have "filter ?eq (array_sort by_balance_desc ?positive) = filter ?eq ?positive"
    by (rule filter_array_sort)
  also have "\<dots> = (if js_gt k (Fin 0) then filter ?eq (map (to_balance pf) found) else [])"
    by (auto intro: filter_cong simp: filter_empty_conv)
  finally show ?thesis
    by (simp split: if_splits)
qed

text \<open>
  C4. For every list of raw entries, the processed holders are in descending order of
  balance, and holders of equal balance stand in the order in which they were fetched:
  for every balance \<open>k\<close>, the holders of balance \<open>k\<close> in the output are, in order,
  the first entries of balance \<open>k\<close> of the input (all of them unless the cut to 15
  removed some). The output is a function of the input, so two runs on the same
  input give the same order.
\<close>

theorem sorted_descending_stable:
  "sorted_wrt (\<lambda>a b. js_le (balance b) (balance a)) (processedHolders pf t found) \<and>
   (\<forall>k. prefix (map fullAddress (filter (\<lambda>h. balance h = k) (processedHolders pf t found)))
          (map owner_address (filter (\<lambda>holder. snd (to_balance pf holder) = k) found)))"
proof
  have "sorted_wrt descending (map (\<lambda>h. (fullAddress h, balance h)) (processedHolders pf t found))"
    by (simp add: processedHolders_pairs sorted_top15)
  then show "sorted_wrt (\<lambda>a b. js_le (balance b) (balance a)) (processedHolders pf t found)"
    by (simp add: sorted_wrt_map descending_def)
next
  show "\<forall>k. prefix (map fullAddress (filter (\<lambda>h. balance h = k) (processedHolders pf t found)))
          (map owner_address (filter (\<lambda>holder. snd (to_balance pf holder) = k) found))"
  proof
    fix k
    have out: "map fullAddress (filter (\<lambda>h. balance h = k) (processedHolders pf t found)) =
        map fst (filter (\<lambda>p. snd p = k) (top15 pf found))"
      unfolding processedHolders_pairs [of pf t found, symmetric]
      by (simp add: filter_map comp_def)
    have inp: "map owner_address (filter (\<lambda>holder. snd (to_balance pf holder) = k) found) =
        map fst (filter (\<lambda>p. snd p = k) (map (to_balance pf) found))"
      by (simp add: filter_map comp_def to_balance_def)
    show "prefix (map fullAddress (filter (\<lambda>h. balance h = k) (processedHolders pf t found)))
          (map owner_address (filter (\<lambda>holder. snd (to_balance pf holder) = k) found))"
      unfolding out inp by (rule map_mono_prefix) (rule top15_stable)
  qed
qed

theorem sorted_descending_stable_witness:
  "map fullAddress (processedHolders parse_digits (Some (Fin 20)) [owner_a1, owner_a2, owner_a3]) =
     [''a2'', ''a1'', ''a3''] \<and>
   map balance (processedHolders parse_digits (Some (Fin 20)) [owner_a1, owner_a2, owner_a3]) =
     [Fin 15, Fin 5, Fin 5] \<and>
   sorted_wrt (\<lambda>a b. js_le (balance b) (balance a))
     (processedHolders parse_digits (Some (Fin 20)) [owner_a1, owner_a2, owner_a3])"
  using sorted_descending_stable [of parse_digits "Some (Fin 20)" "[owner_a1, owner_a2, owner_a3]"]
  by (simp add: processedHolders_def top15_def to_balance_def parse_digits_def digit_of_def
      owner_a1_def owner_a2_def owner_a3_def js_gt_def by_balance_desc_def js_sub_def
      to_holder_def truncateAddress_def truthy_def)

lemma map_rank_to_holder:
  "map rank (map (to_holder t) (enumerate n xs)) = [Suc n..<Suc (n + length xs)]"
proof (induction xs arbitrary: n)
  case Nil
  show ?case by simp
next
  case (Cons x xs)
  have "[Suc n..<Suc (n + length (x # xs))] = Suc n # [Suc (Suc n)..<Suc (Suc n + length xs)]"
    by (simp add: upt_conv_Cons del: upt_Suc)
  moreover have "rank (to_holder t (n, x)) = Suc n"
    by (simp add: to_holder_def)
  ultimately show ?case
    using Cons.IH [of "Suc n"] by (simp del: upt_Suc)
qed

lemma length_processedHolders:
  "length (processedHolders pf t found) = length (top15 pf found)"
  by (simp add: processedHolders_def)

lemma length_top15: "length (top15 pf found) \<le> 15"
  unfolding top15_def length_take by (rule min.cobounded2)

text \<open>
  C5. For every list of raw entries, the ranks of the processed holders (after the
  conversion, the filter on positive balances, the sort and the cut to 15) are, in
  order, the integers 1, 2, ... up to the length of the output: no gap, no repeat.
  The output has at most 15 holders.
\<close>

theorem ranks_contiguous:
  "map rank (processedHolders pf t found) = [1..<Suc (length (processedHolders pf t found))] \<and>
   length (processedHolders pf t found) \<le> 15"
proof -
  have "map rank (processedHolders pf t found) = [Suc 0..<Suc (0 + length (top15 pf found))]"
    unfolding processedHolders_def by (rule map_rank_to_holder)
  then show ?thesis
    by (simp add: length_processedHolders length_top15 del: upt_Suc)
qed

section \<open>The fetch cycle\<close>

text \<open>The equations that evaluate a concrete run.\<close>

lemmas run_defs =
  fetchTopHolders_def fetchWithTimeout_def fetch_with_signal_def totalSupplyValue_of_def
  holders_loop_run holders_loop_exit loop_body_def loop_start_def maxHolders_def limit_def
  on_error_def session0_def supply_stored_def supply_received_def
  processedHolders_def top15_def to_balance_def parse_digits_def digit_of_def
  owner_a1_def owner_a2_def owner_a3_def first_page_def supply_20_def supply_zero_def
  js_gt_def by_balance_desc_def js_sub_def to_holder_def truncateAddress_def truthy_def

text \<open>
  C1, as the code has it. When at least one holder page has been accumulated and a
  later page request is answered with a non-success status, the loop breaks, the
  records accumulated so far are the loop's result, they are processed, and the
  cycle ends in the state \<open>Live\<close> with no error.
\<close>

theorem later_page_http_error_keeps_records:
  assumes "supply_received supply_url supplyData"
    and "loop_reaches owners_url loop_start v"
    and "hasMore v" and "length (allHolders v) < maxHolders"
    and "allHolders v \<noteq> []"
    and "fetchWithTimeout (owners_url (offset v)) 8000 = Inr holdersResponse"
    and "\<not> ok holdersResponse"
  shows "loop_body owners_url v = Break \<and>
    holders_loop owners_url loop_start = Inr (allHolders v) \<and>
    fetchTopHolders pf supply_url owners_url now s0 =
      (supply_stored pf supplyData s0)
        \<lparr> holders := processedHolders pf (totalSupplyValue_of pf supplyData) (allHolders v),
          lastUpdated := Some now, dataSource := Live, isLoading := False \<rparr>"
proof -
  have body: "loop_body owners_url v = Break"
    using assms(6,7) by (simp add: loop_body_def)
  have "holders_loop owners_url loop_start = holders_loop owners_url v"
    using assms(2) by (rule loop_reaches_result)
  also have "\<dots> = Inr (allHolders v)"
    using assms(3,4) body by (simp add: holders_loop_run)
  finally have result: "holders_loop owners_url loop_start = Inr (allHolders v)" .
  from body result cycle_live [OF assms(1) result assms(5)] show ?thesis
    by simp
qed

theorem later_page_http_error_keeps_records_witness:
  "fetchTopHolders parse_digits supply_20 second_page_503 1000 session0 =
     \<lparr> holders =
         [\<lparr> address = ''a2'', fullAddress = ''a2'', balance = Fin 15, percentage = Fin 75,
            rank = 1 \<rparr>,
          \<lparr> address = ''a1'', fullAddress = ''a1'', balance = Fin 5, percentage = Fin 25,
            rank = 2 \<rparr>],
       isLoading = False, error = None, dataSource = Live,
       totalSupply = Some (Fin 20), lastUpdated = Some 1000 \<rparr>"
proof -
  let ?v = "\<lparr> offset = 100, hasMore = True, allHolders = [owner_a1, owner_a2] \<rparr>"
  have got: "supply_received supply_20 (Some ''20000000'')"
    by (simp add: run_defs)
  have "loop_body second_page_503 loop_start = Next ?v"
    by (simp add: run_defs second_page_503_def)
  then have reach: "loop_reaches second_page_503 loop_start ?v"
    by (intro loop_reaches.step [OF loop_reaches.start]) (simp_all add: run_defs)
  have resp: "fetchWithTimeout (second_page_503 (offset ?v)) 8000 =
      Inr (Response False (Inl (JsError ''SyntaxError'' ''Unexpected token <'')))"
    by (simp add: run_defs second_page_503_def)
  from later_page_http_error_keeps_records
    [OF got reach _ _ _ resp, of parse_digits 1000 session0]
  show ?thesis
    by (simp add: run_defs)
qed

text \<open>
  C1 as stated also covers a timeout on a later page. There the error thrown by
  \<open>fetchWithTimeout\<close> leaves the loop and reaches the \<^verbatim>\<open>catch\<close> block: after a first
  page of two owners and a second request that never settles, the cycle ends in the
  state \<open>Error\<close> with the message \<^verbatim>\<open>Request timeout\<close>, and the two owners are not
  processed.
\<close>

theorem later_page_timeout_counterexample:
  "loop_body second_page_hangs loop_start =
     Next \<lparr> offset = 100, hasMore = True, allHolders = [owner_a1, owner_a2] \<rparr> \<and>
   loop_body second_page_hangs
     \<lparr> offset = 100, hasMore = True, allHolders = [owner_a1, owner_a2] \<rparr> =
     Throw (JsError ''Error'' ''Request timeout'') \<and>
   fetchTopHolders parse_digits supply_20 second_page_hangs 1000 session0 =
     \<lparr> holders = [], isLoading = False, error = Some ''Request timeout'',
       dataSource = Error, totalSupply = Some (Fin 20), lastUpdated = None \<rparr>"
  by (simp add: run_defs second_page_hangs_def)


lemma unsettled_times_out:
  "\<not> settles_within url bound \<Longrightarrow>
   fetchWithTimeout url bound = Inl (JsError ''Error'' ''Request timeout'')"
  by (cases url) (simp_all add: fetchWithTimeout_def fetch_with_signal_def)

text \<open>
  C2, as the code has it. When the first holder page request does not settle within
  8000 ms, the request is aborted and \<open>fetchWithTimeout\<close> fails with the error
  \<^verbatim>\<open>Request timeout\<close>; the cycle ends in the state \<open>Error\<close> with that message.
\<close>

theorem first_page_timeout_fails_cycle:
  assumes "supply_received supply_url supplyData"
    and "\<not> settles_within (owners_url 0) 8000"
  shows "fetchWithTimeout (owners_url 0) 8000 = Inl (JsError ''Error'' ''Request timeout'') \<and>
    fetchTopHolders pf supply_url owners_url now s0 =
      on_error (JsError ''Error'' ''Request timeout'') (supply_stored pf supplyData s0) \<and>
    dataSource (fetchTopHolders pf supply_url owners_url now s0) = Error \<and>
    error (fetchTopHolders pf supply_url owners_url now s0) = Some ''Request timeout''"
proof -
  have timeout: "fetchWithTimeout (owners_url 0) 8000 = Inl (JsError ''Error'' ''Request timeout'')"
    using assms(2) by (rule unsettled_times_out)
  then have "loop_body owners_url loop_start = Throw (JsError ''Error'' ''Request timeout'')"
    by (simp add: loop_body_def loop_start_def)
  then have "holders_loop owners_url loop_start = Inl (JsError ''Error'' ''Request timeout'')"
    by (simp add: holders_loop_run loop_start_def maxHolders_def)
  from cycle_thrown [OF assms(1) this] timeout show ?thesis
    by (simp add: on_error_def)
qed

theorem first_page_timeout_fails_cycle_witness:
  "\<not> settles_within (no_page_settles 0) 8000 \<and>
   fetchTopHolders parse_digits supply_20 no_page_settles 1000 session0 =
     \<lparr> holders = [], isLoading = False, error = Some ''Request timeout'',
       dataSource = Error, totalSupply = Some (Fin 20), lastUpdated = None \<rparr>"
proof -
  have got: "supply_received supply_20 (Some ''20000000'')"
    by (simp add: run_defs)
  have hangs: "\<not> settles_within (no_page_settles 0) 8000"
    by (simp add: no_page_settles_def)
  from first_page_timeout_fails_cycle
    [of supply_20 "Some ''20000000''" no_page_settles parse_digits 1000 session0, OF got hangs]
    hangs
  show ?thesis
    by (simp add: run_defs)
qed

text \<open>
  C2 as stated names the error of the cycle as the one for zero records. When no page
  request settles, the message of the cycle is \<^verbatim>\<open>Request timeout\<close>, not
  \<^verbatim>\<open>No holder data received\<close>.
\<close>

theorem first_page_timeout_counterexample:
  "\<not> settles_within (no_page_settles 0) 8000 \<and>
   error (fetchTopHolders parse_digits supply_20 no_page_settles 1000 session0) =
     Some ''Request timeout'' \<and>
   error (fetchTopHolders parse_digits supply_20 no_page_settles 1000 session0) \<noteq>
     Some ''No holder data received''"
  by (simp add: run_defs no_page_settles_def)

text \<open>
  C8. In every state the loop reaches with a continuation token present, when the
  next page arrives with an empty or missing list the loop returns, and it returns
  the records accumulated so far; the cycle goes on with them: they are processed
  and the cycle ends in the state \<open>Live\<close> (with the error for zero records when
  nothing had been accumulated). \<open>holders_loop\<close> is a total function: the loop
  always returns.
\<close>

theorem empty_page_ends_pagination:
  assumes "supply_received supply_url supplyData"
    and "loop_reaches owners_url loop_start v"
    and "hasMore v"
    and "fetchWithTimeout (owners_url (offset v)) 8000 = Inr holdersResponse"
    and "ok holdersResponse"
    and "json holdersResponse = Inr holdersData"
    and "denom_owners holdersData = None \<or> denom_owners holdersData = Some []"
  shows "holders_loop owners_url v = Inr (allHolders v) \<and>
    holders_loop owners_url loop_start = Inr (allHolders v) \<and>
    fetchTopHolders pf supply_url owners_url now s0 =
      (if allHolders v = [] then
         on_error (JsError ''Error'' ''No holder data received'') (supply_stored pf supplyData s0)
       else
         (supply_stored pf supplyData s0)
           \<lparr> holders := processedHolders pf (totalSupplyValue_of pf supplyData) (allHolders v),
             lastUpdated := Some now, dataSource := Live, isLoading := False \<rparr>)"
proof -
  have body: "loop_body owners_url v = Break"
    using assms(4-7) by (auto simp: loop_body_def)
  have here: "holders_loop owners_url v = Inr (allHolders v)"
  proof (cases "length (allHolders v) < maxHolders")
    case True
    with assms(3) body show ?thesis by (simp add: holders_loop_run)
  next
    case False
    then show ?thesis by (simp add: holders_loop_exit)
  qed
  have result: "holders_loop owners_url loop_start = Inr (allHolders v)"
    using loop_reaches_result [OF assms(2)] here by simp
  show ?thesis
  proof (cases "allHolders v = []")
    case True
    with result have "holders_loop owners_url loop_start = Inr []" by simp
    from cycle_no_data [OF assms(1) this] here result True show ?thesis by simp
  next
    case False
    from cycle_live [OF assms(1) result False] here result False show ?thesis by simp
  qed
qed

theorem empty_page_ends_pagination_witness:
  "holders_loop second_page_empty loop_start = Inr [owner_a1, owner_a2] \<and>
   fetchTopHolders parse_digits supply_20 second_page_empty 1000 session0 =
     \<lparr> holders =
         [\<lparr> address = ''a2'', fullAddress = ''a2'', balance = Fin 15, percentage = Fin 75,
            rank = 1 \<rparr>,
          \<lparr> address = ''a1'', fullAddress = ''a1'', balance = Fin 5, percentage = Fin 25,
            rank = 2 \<rparr>],
       isLoading = False, error = None, dataSource = Live,
       totalSupply = Some (Fin 20), lastUpdated = Some 1000 \<rparr>"
proof -
  let ?v = "\<lparr> offset = 100, hasMore = True, allHolders = [owner_a1, owner_a2] \<rparr>"
  let ?page = "\<lparr> denom_owners = Some [], next_key = Some ''AQ=='' \<rparr>"
  have got: "supply_received supply_20 (Some ''20000000'')"
    by (simp add: run_defs)
  have "loop_body second_page_empty loop_start = Next ?v"
    by (simp add: run_defs second_page_empty_def)
  then have reach: "loop_reaches second_page_empty loop_start ?v"
    by (intro loop_reaches.step [OF loop_reaches.start]) (simp_all add: run_defs)
  have resp: "fetchWithTimeout (second_page_empty (offset ?v)) 8000 = Inr (Response True (Inr ?page))"
    by (simp add: run_defs second_page_empty_def)
  from empty_page_ends_pagination
    [OF got reach _ resp, of ?page parse_digits 1000 session0]
  show ?thesis
    by (simp add: run_defs)
qed

text \<open>
  C6. When the supply endpoint answers with a non-success status, or with a body that
  does not parse as JSON, or when the request itself fails, the cycle ends at once in
  the \<^verbatim>\<open>catch\<close> block: the state is \<open>Error\<close> with the message of the error, the
  holders are the ones of the state before, and no holder page is requested (the final
  state does not depend on the owners endpoint). When the supply is received with a
  non-empty amount, the total supply stored is the parsed amount divided by 1000000;
  when the body carries no amount, the total supply stored is null, the unknown
  supply of the data model.
\<close>

theorem supply_failure_aborts_cycle:
  "(fetchWithTimeout supply_url 8000 = Inr supplyResponse \<and> \<not> ok supplyResponse \<longrightarrow>
      fetchTopHolders pf supply_url owners_url now s0 =
        on_error (JsError ''Error'' ''Failed to fetch total supply'')
          (s0\<lparr> isLoading := True, error := None \<rparr>)) \<and>
   (fetchWithTimeout supply_url 8000 = Inr supplyResponse \<and> ok supplyResponse \<and>
    json supplyResponse = Inl err \<longrightarrow>
      fetchTopHolders pf supply_url owners_url now s0 =
        on_error err (s0\<lparr> isLoading := True, error := None \<rparr>)) \<and>
   (fetchWithTimeout supply_url 8000 = Inl err \<longrightarrow>
      fetchTopHolders pf supply_url owners_url now s0 =
        on_error err (s0\<lparr> isLoading := True, error := None \<rparr>)) \<and>
   dataSource (on_error err (s0\<lparr> isLoading := True, error := None \<rparr>)) = Error \<and>
   holders (on_error err (s0\<lparr> isLoading := True, error := None \<rparr>)) = holders s0 \<and>
   (supply_received supply_url (Some amount) \<and> amount \<noteq> '''' \<longrightarrow>
      totalSupply (fetchTopHolders pf supply_url owners_url now s0) =
        Some (js_div (pf amount) (Fin 1000000))) \<and>
   (supply_received supply_url None \<longrightarrow>
      totalSupply (fetchTopHolders pf supply_url owners_url now s0) = None)"
proof -
  have stored: "totalSupply (fetchTopHolders pf supply_url owners_url now s0) =
      totalSupplyValue_of pf supplyData"
    if got: "supply_received supply_url supplyData" for supplyData
  proof (cases "holders_loop owners_url loop_start")
    case (Inl thrown)
    from cycle_thrown [OF got this] show ?thesis
      by (simp add: on_error_def supply_stored_def)
  next
    case (Inr found)
    show ?thesis
    proof (cases "found = []")
      case True
      with Inr cycle_no_data [OF got] show ?thesis
        by (simp add: on_error_def supply_stored_def)
    next
      case False
      from cycle_live [OF got Inr False] show ?thesis
        by (simp add: supply_stored_def)
    qed
  qed
  have amount: "totalSupply (fetchTopHolders pf supply_url owners_url now s0) =
      Some (js_div (pf amount) (Fin 1000000))"
    if "supply_received supply_url (Some amount)" and "amount \<noteq> ''''"
    using stored [OF that(1)] that(2) by (simp add: totalSupplyValue_of_def)
  have missing: "totalSupply (fetchTopHolders pf supply_url owners_url now s0) = None"
    if "supply_received supply_url None"
    using stored [OF that] by (simp add: totalSupplyValue_of_def)
  have failures:
    "fetchWithTimeout supply_url 8000 = Inr supplyResponse \<and> \<not> ok supplyResponse \<longrightarrow>
      fetchTopHolders pf supply_url owners_url now s0 =
        on_error (JsError ''Error'' ''Failed to fetch total supply'')
          (s0\<lparr> isLoading := True, error := None \<rparr>)"
    "fetchWithTimeout supply_url 8000 = Inr supplyResponse \<and> ok supplyResponse \<and>
     json supplyResponse = Inl err \<longrightarrow>
      fetchTopHolders pf supply_url owners_url now s0 =
        on_error err (s0\<lparr> isLoading := True, error := None \<rparr>)"
    "fetchWithTimeout supply_url 8000 = Inl err \<longrightarrow>
      fetchTopHolders pf supply_url owners_url now s0 =
        on_error err (s0\<lparr> isLoading := True, error := None \<rparr>)"
    by (simp_all add: fetchTopHolders_def)
  have after:
    "dataSource (on_error err (s0\<lparr> isLoading := True, error := None \<rparr>)) = Error"
    "holders (on_error err (s0\<lparr> isLoading := True, error := None \<rparr>)) = holders s0"
    by (simp_all add: on_error_def)
  from failures after amount missing show ?thesis
    by blast
qed

theorem supply_failure_aborts_cycle_witness:
  "fetchTopHolders parse_digits supply_500 second_page_empty 1000 session0 =
     \<lparr> holders = [], isLoading = False, error = Some ''Failed to fetch total supply'',
       dataSource = Error, totalSupply = None, lastUpdated = None \<rparr> \<and>
   fetchTopHolders parse_digits supply_not_json second_page_empty 1000 session0 =
     \<lparr> holders = [], isLoading = False, error = Some ''Unexpected token <'',
       dataSource = Error, totalSupply = None, lastUpdated = None \<rparr> \<and>
   fetchTopHolders parse_digits Hangs second_page_empty 1000 session0 =
     \<lparr> holders = [], isLoading = False, error = Some ''Request timeout'',
       dataSource = Error, totalSupply = None, lastUpdated = None \<rparr> \<and>
   totalSupply (fetchTopHolders parse_digits supply_20 second_page_empty 1000 session0) =
     Some (Fin 20) \<and>
   totalSupply (fetchTopHolders parse_digits supply_no_amount second_page_empty 1000 session0) =
     None"
  using
    supply_failure_aborts_cycle [of supply_no_amount "Response True (Inr None)" parse_digits
      second_page_empty 1000 session0 "JsError ''Error'' ''Request timeout''" "''1''"]
    supply_failure_aborts_cycle [of supply_500 "Response False (Inr None)" parse_digits
      second_page_empty 1000 session0 "JsError ''Error'' ''Failed to fetch total supply''" "''1''"]
    supply_failure_aborts_cycle [of supply_not_json
      "Response True (Inl (JsError ''SyntaxError'' ''Unexpected token <''))" parse_digits
      second_page_empty 1000 session0 "JsError ''SyntaxError'' ''Unexpected token <''" "''1''"]
    supply_failure_aborts_cycle [of Hangs "Response False (Inr None)" parse_digits
      second_page_empty 1000 session0 "JsError ''Error'' ''Request timeout''" "''1''"]
    supply_failure_aborts_cycle [of supply_20 "Response True (Inr (Some ''20000000''))"
      parse_digits second_page_empty 1000 session0 "JsError ''Error'' ''Request timeout''"
      "''20000000''"]
  by (simp add: run_defs supply_500_def supply_not_json_def supply_no_amount_def
      second_page_empty_def)

section \<open>A total supply of zero\<close>

lemma zero_supply_percentage:
  "percentage (to_holder (Some (Fin 0)) p) = Fin 0"
  by (cases p) (simp add: to_holder_def truthy_def)

text \<open>
  C10. When the amount of the supply parses to exactly 0, the total supply is 0, which
  is falsy: no division by it takes place and every processed holder has the
  percentage 0, a finite number. The cycle succeeds as it does for any other supply:
  whenever the loop returns at least one record, the state is \<open>Live\<close> with no error.
\<close>

theorem zero_supply_gives_zero_percentages:
  assumes "supply_received supply_url (Some amount)" and "amount \<noteq> ''''"
    and "pf amount = Fin 0"
    and "holders_loop owners_url loop_start = Inr found" and "found \<noteq> []"
  shows "totalSupply (fetchTopHolders pf supply_url owners_url now s0) = Some (Fin 0) \<and>
    dataSource (fetchTopHolders pf supply_url owners_url now s0) = Live \<and>
    error (fetchTopHolders pf supply_url owners_url now s0) = None \<and>
    holders (fetchTopHolders pf supply_url owners_url now s0) =
      processedHolders pf (Some (Fin 0)) found \<and>
    (\<forall>h \<in> set (holders (fetchTopHolders pf supply_url owners_url now s0)).
       percentage h = Fin 0)"
proof -
  have zero: "totalSupplyValue_of pf (Some amount) = Some (Fin 0)"
    using assms(2,3) by (simp add: totalSupplyValue_of_def)
  have "\<forall>h \<in> set (processedHolders pf (Some (Fin 0)) found). percentage h = Fin 0"
    by (auto simp: processedHolders_def zero_supply_percentage)
  with cycle_live [OF assms(1,4,5), of pf now s0] zero show ?thesis
    by (simp add: supply_stored_def)
qed

theorem zero_supply_gives_zero_percentages_witness:
  "parse_digits ''0'' = Fin 0 \<and>
   fetchTopHolders parse_digits supply_zero tie_page 1000 session0 =
     \<lparr> holders =
         [\<lparr> address = ''a2'', fullAddress = ''a2'', balance = Fin 15, percentage = Fin 0,
            rank = 1 \<rparr>,
          \<lparr> address = ''a1'', fullAddress = ''a1'', balance = Fin 5, percentage = Fin 0,
            rank = 2 \<rparr>,
          \<lparr> address = ''a3'', fullAddress = ''a3'', balance = Fin 5, percentage = Fin 0,
            rank = 3 \<rparr>],
       isLoading = False, error = None, dataSource = Live,
       totalSupply = Some (Fin 0), lastUpdated = Some 1000 \<rparr>"
proof -
  have got: "supply_received supply_zero (Some ''0'')"
    by (simp add: run_defs)
  have zero: "parse_digits ''0'' = Fin 0"
    by (simp add: run_defs)
  have found: "holders_loop tie_page loop_start = Inr [owner_a1, owner_a2, owner_a3]"
    by (simp add: run_defs tie_page_def)
  from zero_supply_gives_zero_percentages
    [of supply_zero "''0''" parse_digits tie_page "[owner_a1, owner_a2, owner_a3]" 1000 session0,
     OF got _ zero found]
    zero
  show ?thesis
    by (simp add: run_defs tie_page_def)
qed

section \<open>The number of accumulated records\<close>

lemma fetchWithTimeout_answer:
  "fetchWithTimeout url bound = Inr r \<Longrightarrow> \<exists>t. url = Responds t r"
  by (cases url)
     (auto simp: fetchWithTimeout_def fetch_with_signal_def split: if_splits)

lemma loop_body_Next_page:
  assumes "loop_body owners_url v = Next v'"
  shows "allHolders v' = allHolders v @ page_entries (owners_url (offset v)) \<and>
    page_entries (owners_url (offset v)) \<noteq> []"
proof -
  from assms obtain r d owners
    where r: "fetchWithTimeout (owners_url (offset v)) 8000 = Inr r"
      and d: "json r = Inr d" and owners: "denom_owners d = Some owners"
      and grown: "allHolders v' = allHolders v @ owners" and some: "owners \<noteq> []"
    by (auto simp: loop_body_def split: sum.splits if_splits option.splits)
  from fetchWithTimeout_answer [OF r] obtain t where "owners_url (offset v) = Responds t r"
    by blast
  with d owners have "page_entries (owners_url (offset v)) = owners"
    by (simp add: page_entries_def)
  with grown some show ?thesis by simp
qed

lemma reaches_at_most:
  assumes "loop_reaches owners_url v w" and "pages_at_most owners_url bound"
    and "length (allHolders v) \<le> 499 + bound"
  shows "length (allHolders w) \<le> 499 + bound"
  using assms(1,3)
proof (induction rule: loop_reaches.induct)
  case (start v)
  then show ?case by simp
next
  case (step v w w')
  from assms(2) have "length (page_entries (owners_url (offset w))) \<le> bound"
    by (simp add: pages_at_most_def)
  with step.hyps(3) loop_body_Next_page [OF step.hyps(4)] show ?case
    by (simp add: maxHolders_def)
qed

lemma loop_body_Next_token:
  assumes "loop_body owners_url v = Next v'"
  shows "hasMore v' = page_has_token (owners_url (offset v))"
proof -
  from assms obtain r d
    where r: "fetchWithTimeout (owners_url (offset v)) 8000 = Inr r"
      and d: "json r = Inr d"
      and more: "hasMore v' = (case next_key d of None \<Rightarrow> False | Some k \<Rightarrow> k \<noteq> '''')"
    by (auto simp: loop_body_def split: sum.splits if_splits option.splits)
  from fetchWithTimeout_answer [OF r] obtain t where "owners_url (offset v) = Responds t r"
    by blast
  with d more show ?thesis
    by (simp add: page_has_token_def)
qed

lemma reaches_capped:
  assumes "loop_reaches owners_url v w"
    and "pages_at_most owners_url limit" and "token_pages_full owners_url"
    and "length (allHolders v) \<le> maxHolders"
    and "hasMore v \<longrightarrow> limit dvd length (allHolders v)"
  shows "length (allHolders w) \<le> maxHolders \<and>
    (hasMore w \<longrightarrow> limit dvd length (allHolders w))"
  using assms(1,4,5)
proof (induction rule: loop_reaches.induct)
  case (start v)
  then show ?case by simp
next
  case (step v w w')
  from step have dvd: "100 dvd length (allHolders w)" and below: "length (allHolders w) < 500"
    by (simp_all add: limit_def maxHolders_def)
  then have low: "length (allHolders w) \<le> 400"
    by (elim dvdE) simp
  let ?page = "page_entries (owners_url (offset w))"
  from loop_body_Next_page [OF step.hyps(4)]
  have grown: "allHolders w' = allHolders w @ ?page" and some: "?page \<noteq> []"
    by simp_all
  from assms(2) have small: "length ?page \<le> 100"
    by (simp add: pages_at_most_def limit_def)
  have "100 dvd length (allHolders w')" if "hasMore w'"
  proof -
    from that loop_body_Next_token [OF step.hyps(4)]
    have "page_has_token (owners_url (offset w))" by simp
    with assms(3) some have "length ?page = 100"
      by (auto simp: token_pages_full_def limit_def)
    with dvd grown show ?thesis by simp
  qed
  with low small grown show ?case
    by (simp add: limit_def maxHolders_def)
qed

lemma server_of_within_limit: "pages_at_most (server_of n) limit"
  by (simp add: pages_at_most_def page_entries_def server_of_def)

lemma server_of_token_pages_full: "token_pages_full (server_of n)"
  by (auto simp: token_pages_full_def page_has_token_def page_entries_def server_of_def
      limit_def min_def)

text \<open>
  C3, as the code has it. The guard stops the loop once 500 or more records are
  accumulated, and the body appends a whole page. So at every point the loop reaches,
  and in its result, the count is at most 499 plus the size of the largest page: at
  most 599 when no page has more than 100 entries. It is at most 500 when, moreover,
  every non-empty page that carries a continuation token has exactly 100 entries,
  that is, when a short page comes only last.
\<close>

theorem accumulated_count_bound:
  "(maxHolders \<le> length (allHolders v) \<longrightarrow>
      holders_loop owners_url v = Inr (allHolders v)) \<and>
   (loop_reaches owners_url loop_start v \<and> pages_at_most owners_url bound \<longrightarrow>
      length (allHolders v) \<le> 499 + bound) \<and>
   (loop_reaches owners_url loop_start v \<and> pages_at_most owners_url limit \<and>
    token_pages_full owners_url \<longrightarrow>
      length (allHolders v) \<le> 500) \<and>
   (holders_loop owners_url loop_start = Inr found \<and> pages_at_most owners_url bound \<longrightarrow>
      length found \<le> 499 + bound) \<and>
   (holders_loop owners_url loop_start = Inr found \<and> pages_at_most owners_url limit \<and>
    token_pages_full owners_url \<longrightarrow>
      length found \<le> 500)"
proof -
  have at_most: "length (allHolders w) \<le> 499 + bound"
    if "loop_reaches owners_url loop_start w" "pages_at_most owners_url bound" for w
    using reaches_at_most [OF that] by (simp add: loop_start_def)
  have capped: "length (allHolders w) \<le> 500"
    if "loop_reaches owners_url loop_start w" "pages_at_most owners_url limit"
      "token_pages_full owners_url" for w
    using reaches_capped [OF that] by (simp add: loop_start_def maxHolders_def)
  have last: "\<exists>w. loop_reaches owners_url loop_start w \<and> allHolders w = found"
    if "holders_loop owners_url loop_start = Inr found"
    using that by (rule result_reached)
  have stop: "holders_loop owners_url v = Inr (allHolders v)"
    if "maxHolders \<le> length (allHolders v)"
    using that by (simp add: holders_loop_exit)
  from at_most capped last stop show ?thesis
    by blast
qed

theorem accumulated_count_bound_witness:
  "loop_reaches short_first_page loop_start
     \<lparr> offset = 100, hasMore = True, allHolders = replicate 99 owner_a1 \<rparr> \<and>
   pages_at_most short_first_page 100 \<and>
   holders_loop short_first_page loop_start = Inr (replicate 599 owner_a1) \<and>
   length (replicate 599 owner_a1) \<le> 499 + 100 \<and>
   pages_at_most (server_of 237) limit \<and> token_pages_full (server_of 237) \<and>
   loop_reaches (server_of 237) loop_start
     \<lparr> offset = 100, hasMore = True, allHolders = replicate 100 owner_a1 \<rparr> \<and>
   holders_loop (server_of 237) loop_start = Inr (replicate 237 owner_a1) \<and>
   pages_at_most (server_of 12345) limit \<and> token_pages_full (server_of 12345) \<and>
   holders_loop (server_of 12345) loop_start = Inr (replicate 500 owner_a1) \<and>
   length (replicate 500 owner_a1) \<le> 500 \<and>
   maxHolders \<le> length (replicate 599 owner_a1) \<and>
   holders_loop (server_of 12345)
     \<lparr> offset = 600, hasMore = True, allHolders = replicate 599 owner_a1 \<rparr> =
     Inr (replicate 599 owner_a1)"
proof -
  let ?v = "\<lparr> offset = 100, hasMore = True, allHolders = replicate 99 owner_a1 \<rparr>"
  let ?u = "\<lparr> offset = 100, hasMore = True, allHolders = replicate 100 owner_a1 \<rparr>"
  let ?w = "\<lparr> offset = 600, hasMore = True, allHolders = replicate 599 owner_a1 \<rparr>"
  have capped: "maxHolders \<le> length (allHolders ?w)"
    by (simp add: maxHolders_def)
  have "loop_body short_first_page loop_start = Next ?v"
    by (simp add: loop_body_def fetchWithTimeout_def fetch_with_signal_def loop_start_def
        short_first_page_def limit_def)
  then have reach: "loop_reaches short_first_page loop_start ?v"
    by (intro loop_reaches.step [OF loop_reaches.start])
       (simp_all add: loop_start_def maxHolders_def)
  have "loop_body (server_of 237) loop_start = Next ?u"
    by (simp add: loop_body_def fetchWithTimeout_def fetch_with_signal_def loop_start_def
        server_of_def limit_def)
  then have reach2: "loop_reaches (server_of 237) loop_start ?u"
    by (intro loop_reaches.step [OF loop_reaches.start])
       (simp_all add: loop_start_def maxHolders_def)
  have small: "pages_at_most short_first_page 100"
    by (simp add: pages_at_most_def page_entries_def short_first_page_def)
  have run1: "holders_loop short_first_page loop_start = Inr (replicate 599 owner_a1)"
    by (simp add: fetchWithTimeout_def fetch_with_signal_def holders_loop_run holders_loop_exit
        loop_body_def loop_start_def short_first_page_def maxHolders_def limit_def
        flip: replicate_add)
  have run2: "holders_loop (server_of 237) loop_start = Inr (replicate 237 owner_a1)"
    by (simp add: fetchWithTimeout_def fetch_with_signal_def holders_loop_run holders_loop_exit
        loop_body_def loop_start_def server_of_def maxHolders_def limit_def
        flip: replicate_add)
  have run3: "holders_loop (server_of 12345) loop_start = Inr (replicate 500 owner_a1)"
    by (simp add: fetchWithTimeout_def fetch_with_signal_def holders_loop_run holders_loop_exit
        loop_body_def loop_start_def server_of_def maxHolders_def limit_def
        flip: replicate_add)
  from accumulated_count_bound [of ?v short_first_page 100 "replicate 599 owner_a1"]
    accumulated_count_bound [of ?u "server_of 237" 100 "replicate 237 owner_a1"]
    accumulated_count_bound [of ?w "server_of 12345" 100 "replicate 500 owner_a1"]
    reach reach2 small run1 run2 run3 capped
    server_of_within_limit [of 237] server_of_token_pages_full [of 237]
    server_of_within_limit [of 12345] server_of_token_pages_full [of 12345]
  show ?thesis
    by simp
qed

text \<open>
  C3 as stated bounds the count by 500 for every sequence of pages. With 99 owners on
  the first page and 100 on each later one, no page over the limit, five pages leave
  499 records, a sixth page is requested, and the loop returns 599 records.
\<close>

theorem accumulated_count_counterexample:
  "pages_at_most short_first_page limit \<and>
   holders_loop short_first_page loop_start = Inr (replicate 599 owner_a1) \<and>
   \<not> length (replicate 599 owner_a1) \<le> maxHolders"
  by (simp add: fetchWithTimeout_def fetch_with_signal_def holders_loop_run holders_loop_exit
      loop_body_def loop_start_def short_first_page_def maxHolders_def limit_def
      pages_at_most_def page_entries_def
      flip: replicate_add)

section \<open>The layout\<close>

lemma clamp_within:
  assumes "lo \<le> hi"
  shows "js_le (Fin lo) (Math_max (Fin lo) (Math_min (Fin x) (Fin hi))) \<and>
    js_le (Math_max (Fin lo) (Math_min (Fin x) (Fin hi))) (Fin hi)"
  using assms by (auto simp: Math_max_def Math_min_def js_le_def)

lemma min_canvas: "Math_min (Fin 800) (Fin 600) = Fin 600"
  by (simp add: Math_min_def)

lemma position_value:
  assumes "n \<noteq> 0"
  shows "calculateBubblePosition (Fin i) (Fin n) =
      \<lparr> left_pos =
          Math_max (Fin 100)
            (Math_min (Fin (800 / 2 + i / n * 600 / 2.5 * cos (i * 2.4))) (Fin 700)),
        top_pos =
          Math_max (Fin 100)
            (Math_min (Fin (600 / 2 + i / n * 600 / 2.5 * sin (i * 2.4))) (Fin 500)) \<rparr>"
  using assms
  by (simp add: calculateBubblePosition_def Let_def min_canvas js_sub_def)

lemma position_within_canvas:
  assumes "n \<noteq> 0"
  shows "within_canvas (calculateBubblePosition (Fin i) (Fin n))"
  unfolding position_value [OF assms] within_canvas_def
  using clamp_within [of 100 700] clamp_within [of 100 500]
  by simp

text \<open>
  C7. For every list of at least one holder, the layout has one position per holder,
  and the position computed for any index with that count (the indices of the list
  among them) has its left coordinate between 100 and 700 and its top coordinate
  between 100 and 500, bounds included.
\<close>

theorem layout_within_canvas:
  assumes "1 \<le> length hs"
  shows "length (layout hs) = length hs \<and>
    (\<forall>p \<in> set (layout hs). within_canvas p) \<and>
    (\<forall>index. within_canvas
       (calculateBubblePosition (Fin (real index)) (Fin (real (length hs)))))"
proof -
  from assms have count: "real (length hs) \<noteq> 0" by (cases hs) simp_all
  have each: "within_canvas (calculateBubblePosition (Fin (real index)) (Fin (real (length hs))))"
    for index
    using count by (rule position_within_canvas)
  have "length (layout hs) = length hs"
    by (simp add: layout_def)
  moreover have "\<forall>p \<in> set (layout hs). within_canvas p"
    using each by (auto simp: layout_def)
  ultimately show ?thesis
    using each by simp
qed

theorem layout_within_canvas_witness:
  "1 \<le> length (processedHolders parse_digits (Some (Fin 20)) [owner_a1]) \<and>
   layout (processedHolders parse_digits (Some (Fin 20)) [owner_a1]) =
     [\<lparr> left_pos = Fin 400, top_pos = Fin 300 \<rparr>] \<and>
   within_canvas \<lparr> left_pos = Fin 400, top_pos = Fin 300 \<rparr>"
  using layout_within_canvas [of "processedHolders parse_digits (Some (Fin 20)) [owner_a1]"]
  by (simp add: run_defs layout_def calculateBubblePosition_def Let_def Math_min_def Math_max_def
      within_canvas_def js_le_def)

end
